theory Spec2Isabelle
  imports Main
begin

section \<open>The rotation engine of pino-roll\<close>

text \<open>
  The module \<^verbatim>\<open>pino-roll.js\<close> exports one asynchronous function. It parses the
  configuration, opens a SonicBoom destination and then registers callbacks: listeners on
  the destination (\<^verbatim>\<open>close\<close>, \<^verbatim>\<open>write\<close>, \<^verbatim>\<open>error\<close>), the hook
  \<^verbatim>\<open>retryEAGAIN\<close>, two process signal handlers and timer callbacks. The callbacks share
  the closure variables \<^verbatim>\<open>number\<close>, \<^verbatim>\<open>currentSize\<close>, \<^verbatim>\<open>rollTimeout\<close> and
  the object \<^verbatim>\<open>frequencySpec\<close>.

  The embedding passes the closure explicitly as a record. Every callback is a function
  from the closure to the updated closure and the list of calls it made on its
  collaborators (the destination, the timer API, stderr), in the order it made them.
  Node runs every callback to completion before the next one, so one callback is one
  step of the model.

  JavaScript numbers are modelled as \<^typ>\<open>int\<close>: sequence numbers and byte counts are
  integers well inside the range where a double represents every integer.
\<close>

subsection \<open>Values, options and the helper module\<close>

text \<open>The options \<^verbatim>\<open>size\<close> and \<^verbatim>\<open>frequency\<close> are a string or a number.\<close>

datatype jsval = JStr string | JNum int

text \<open>
  The failures of startup, the \<^verbatim>\<open>TypeError\<close> JavaScript raises on reading a
  property of \<^verbatim>\<open>null\<close>, and the \<^verbatim>\<open>Error('SonicBoom destroyed')\<close> that
  \<^verbatim>\<open>reopen\<close> throws on a destroyed stream.
\<close>

datatype error = InvalidConfiguration | PathUnavailable | TypeError | SonicBoomDestroyed

text \<open>
  The destructured argument of the exported function. \<^verbatim>\<open>mkdir\<close> is the one member
  of the rest \<^verbatim>\<open>...opts\<close> the module reads itself.
\<close>

record options =
  file_opt :: string
  size_opt :: "jsval option"
  frequency :: "jsval option"
  dateFormat :: "string option"
  extension :: "string option"
  mkdir :: bool

text \<open>The object \<^verbatim>\<open>parseFrequency\<close> returns; its field \<^verbatim>\<open>next\<close> is assigned later.\<close>

record frequencySpec =
  start :: int
  next_at :: int

text \<open>
  The five functions imported from \<^verbatim>\<open>./lib/utils\<close> are not among the sources at
  hand, so they are parameters of the model. A parser returns \<open>Inl\<close> where it throws
  and \<open>None\<close> where it returns \<^verbatim>\<open>null\<close> or \<^verbatim>\<open>undefined\<close>; \<open>getNext\<close> takes the
  clock reading it is evaluated at.
\<close>

record utils =
  buildFileName :: "string \<Rightarrow> int \<Rightarrow> string option \<Rightarrow> string option \<Rightarrow> string"
  detectLastNumber :: "string \<Rightarrow> int option \<Rightarrow> error + int"
  parseSize :: "jsval option \<Rightarrow> error + int option"
  parseFrequency :: "jsval option \<Rightarrow> error + frequencySpec option"
  getNext :: "jsval option \<Rightarrow> int \<Rightarrow> int"

subsection \<open>The closure and the calls on collaborators\<close>

text \<open>
  The two functions handed to \<^verbatim>\<open>setTimeout\<close>: \<^verbatim>\<open>roll\<close> itself (by the write
  listener) and the arrow function of \<^verbatim>\<open>scheduleRoll\<close>.
\<close>

datatype callback = RollCb | ScheduledCb

datatype action =
    ScanDirectory string "int option"
  | Construct string
  | Reopen string
  | StderrWrite string
  | SetTimeout nat callback int
  | ClearTimeout "nat option"

text \<open>
  \<open>timers\<close> is the event loop's list of pending timers (handle, callback, delay) and
  \<open>next_id\<close> the next fresh handle; \<open>closeListener\<close> says whether the
  \<^verbatim>\<open>once('close')\<close> listener is still registered; \<open>dest_closed\<close> whether the
  destination has emitted \<^verbatim>\<open>close\<close>. \<open>maxSize\<close> never changes after startup.
\<close>

record state =
  number :: int
  currentSize :: int
  maxSize :: "int option"
  frequencySpec :: "frequencySpec option"
  rollTimeout :: "nat option"
  timers :: "(nat \<times> callback \<times> int) list"
  next_id :: nat
  closeListener :: bool
  dest_closed :: bool

definition setTimeout :: "callback \<Rightarrow> int \<Rightarrow> state \<Rightarrow> nat \<times> state" where
  "setTimeout cb d s =
     (next_id s, s\<lparr>timers := timers s @ [(next_id s, cb, d)], next_id := Suc (next_id s)\<rparr>)"

text \<open>\<^verbatim>\<open>clearTimeout(undefined)\<close> and clearing a timer that has fired do nothing.\<close>

definition clearTimeout :: "nat option \<Rightarrow> state \<Rightarrow> state" where
  "clearTimeout h s =
     (case h of
        None \<Rightarrow> s
      | Some i \<Rightarrow> s\<lparr>timers := filter (\<lambda>t. fst t \<noteq> i) (timers s)\<rparr>)"

definition fileName :: "utils \<Rightarrow> options \<Rightarrow> int \<Rightarrow> string" where
  "fileName U opts n = buildFileName U (file_opt opts) n (extension opts) (dateFormat opts)"

text \<open>
  \<^verbatim>\<open>destination.reopen(buildFileName(file, ++number, extension, dateFormat))\<close>. Here
  the call of \<^verbatim>\<open>reopen\<close> is recorded and taken to return, as it does on a live
  destination; \<open>roll_exn\<close> below is the same function with the exception of a destroyed
  one.
\<close>

definition roll :: "utils \<Rightarrow> options \<Rightarrow> state \<Rightarrow> state \<times> action list" where
  "roll U opts s =
     (s\<lparr>number := number s + 1\<rparr>, [Reopen (fileName U opts (number s + 1))])"

text \<open>
  \<^verbatim>\<open>scheduleRoll\<close> clears the timer \<^verbatim>\<open>rollTimeout\<close> names and arms a new one with
  the delay \<^verbatim>\<open>frequencySpec.next - Date.now()\<close>; \<open>now\<close> is that clock reading.
\<close>

definition scheduleRoll :: "int \<Rightarrow> state \<Rightarrow> (error + state) \<times> action list" where
  "scheduleRoll now s =
     (let s1 = clearTimeout (rollTimeout s) s in
      case frequencySpec s1 of
        None \<Rightarrow> (Inl TypeError, [ClearTimeout (rollTimeout s)])
      | Some fs \<Rightarrow>
          (let (h, s2) = setTimeout ScheduledCb (next_at fs - now) s1 in
           (Inr (s2\<lparr>rollTimeout := Some h\<rparr>),
            [ClearTimeout (rollTimeout s), SetTimeout h ScheduledCb (next_at fs - now)])))"

subsection \<open>Startup\<close>

text \<open>
  The body of the exported function up to \<^verbatim>\<open>return destination\<close>, in source order:
  \<^verbatim>\<open>parseFrequency\<close>, \<^verbatim>\<open>detectLastNumber\<close>, \<^verbatim>\<open>parseSize\<close>, the construction of
  the destination, and the first \<^verbatim>\<open>scheduleRoll\<close> when a frequency is configured. An
  exception of a helper ends the function; the actions performed so far are returned
  with it.
\<close>

definition startup :: "utils \<Rightarrow> options \<Rightarrow> int \<Rightarrow> (error + state) \<times> action list" where
  "startup U opts now =
     (case parseFrequency U (frequency opts) of
        Inl e \<Rightarrow> (Inl e, [])
      | Inr fso \<Rightarrow>
          (let a0 = [ScanDirectory (file_opt opts) (map_option start fso)] in
           case detectLastNumber U (file_opt opts) (map_option start fso) of
             Inl e \<Rightarrow> (Inl e, a0)
           | Inr n \<Rightarrow>
               (case parseSize U (size_opt opts) of
                  Inl e \<Rightarrow> (Inl e, a0)
                | Inr ms \<Rightarrow>
                    (let a1 = a0 @ [Construct (fileName U opts n)];
                         s0 = \<lparr>number = n, currentSize = 0, maxSize = ms,
                               frequencySpec = fso, rollTimeout = None, timers = [],
                               next_id = 0, closeListener = False, dest_closed = False\<rparr>
                     in case fso of
                          None \<Rightarrow> (Inr s0, a1)
                        | Some _ \<Rightarrow>
                            (case scheduleRoll now (s0\<lparr>closeListener := True\<rparr>) of
                               (r, a2) \<Rightarrow> (r, a1 @ a2))))))"

subsection \<open>The callbacks\<close>

datatype signal = SIGHUP | SIGUSR2

text \<open>
  What Node can deliver to the module: an event of the destination, a call of the
  \<^verbatim>\<open>retryEAGAIN\<close> hook, a process signal, or the expiry of a timer. An error value is
  represented by the string \<^verbatim>\<open>${err}\<close> renders. \<open>TimerFire h t1 t2\<close> is the expiry of
  the timer with handle \<open>h\<close>; \<open>t1\<close> is the clock reading inside \<^verbatim>\<open>getNext\<close> and
  \<open>t2\<close> the one inside \<^verbatim>\<open>scheduleRoll\<close>.
\<close>

datatype event =
    Write int
  | Error string
  | RetryEAGAIN string
  | Signal signal
  | Close
  | TimerFire nat int int

text \<open>The listener of \<^verbatim>\<open>close\<close>, registered with \<^verbatim>\<open>once\<close> when a frequency is configured.\<close>

definition on_close :: "state \<Rightarrow> state \<times> action list" where
  "on_close s =
     (if closeListener s
      then ((clearTimeout (rollTimeout s) s)\<lparr>closeListener := False, dest_closed := True\<rparr>,
            [ClearTimeout (rollTimeout s)])
      else (s\<lparr>dest_closed := True\<rparr>, []))"

text \<open>
  The listener of \<^verbatim>\<open>write\<close>; \<open>m\<close> is the value of \<^verbatim>\<open>maxSize\<close>. The roll is
  handed to \<^verbatim>\<open>setTimeout(roll, 0)\<close>, not called.
\<close>

definition on_write :: "int \<Rightarrow> int \<Rightarrow> state \<Rightarrow> state \<times> action list" where
  "on_write m writtenSize s =
     (let s1 = s\<lparr>currentSize := currentSize s + writtenSize\<rparr> in
      if currentSize s1 \<ge> m
      then (let (h, s2) = setTimeout RollCb 0 (s1\<lparr>currentSize := 0\<rparr>)
            in (s2, [SetTimeout h RollCb 0]))
      else (s1, []))"

definition diagnostic :: "string \<Rightarrow> string \<Rightarrow> string" where
  "diagnostic prefix err = prefix @ err @ [CHR '' '', CHR 0x0A, CHR 0x0D]"

text \<open>The listener of \<^verbatim>\<open>error\<close>.\<close>

definition on_error :: "utils \<Rightarrow> options \<Rightarrow> string \<Rightarrow> state \<Rightarrow> state \<times> action list" where
  "on_error U opts err s =
     (let (s1, a1) = (if mkdir opts then roll U opts s else (s, []))
      in (s1, a1 @ [StderrWrite (diagnostic ''Pino Error : '' err)]))"

text \<open>The function assigned to \<^verbatim>\<open>destination.retryEAGAIN\<close>.\<close>

definition retryEAGAIN :: "utils \<Rightarrow> options \<Rightarrow> string \<Rightarrow> state \<Rightarrow> state \<times> action list" where
  "retryEAGAIN U opts err s =
     (let (s1, a1) = (if mkdir opts then roll U opts s else (s, []))
      in (s1, a1 @ [StderrWrite (diagnostic ''Pino retryEAGAIN : '' err)]))"

text \<open>
  The arrow function of \<^verbatim>\<open>scheduleRoll\<close>: \<^verbatim>\<open>roll()\<close>, then
  \<^verbatim>\<open>frequencySpec.next = getNext(frequency)\<close>, then \<^verbatim>\<open>scheduleRoll()\<close>.
\<close>

definition scheduled :: "utils \<Rightarrow> options \<Rightarrow> int \<Rightarrow> int \<Rightarrow> state \<Rightarrow> (error + state) \<times> action list" where
  "scheduled U opts t1 t2 s =
     (let (s1, a1) = roll U opts s in
      case frequencySpec s1 of
        None \<Rightarrow> (Inl TypeError, a1)
      | Some fs \<Rightarrow>
          (let s2 = s1\<lparr>frequencySpec := Some (fs\<lparr>next_at := getNext U (frequency opts) t1\<rparr>)\<rparr>
           in case scheduleRoll t2 s2 of (r, a2) \<Rightarrow> (r, a1 @ a2)))"

text \<open>
  The expiry of a timer: a handle that is not pending (never armed, already fired, or
  cleared) runs nothing; a pending one leaves the list and its callback runs.
\<close>

definition timer_fire :: "utils \<Rightarrow> options \<Rightarrow> nat \<Rightarrow> int \<Rightarrow> int \<Rightarrow> state \<Rightarrow> (error + state) \<times> action list" where
  "timer_fire U opts h t1 t2 s =
     (case map_of (timers s) h of
        None \<Rightarrow> (Inr s, [])
      | Some (cb, d) \<Rightarrow>
          (let s0 = s\<lparr>timers := filter (\<lambda>t. fst t \<noteq> h) (timers s)\<rparr> in
           case cb of
             RollCb \<Rightarrow> (case roll U opts s0 of (s1, a) \<Rightarrow> (Inr s1, a))
           | ScheduledCb \<Rightarrow> scheduled U opts t1 t2 s0))"

fun step :: "utils \<Rightarrow> options \<Rightarrow> state \<Rightarrow> event \<Rightarrow> (error + state) \<times> action list" where
  "step U opts s (Write n) =
     (case maxSize s of
        None \<Rightarrow> (Inr s, [])
      | Some m \<Rightarrow>
          if m = 0 then (Inr s, [])
          else (case on_write m n s of (s', a) \<Rightarrow> (Inr s', a)))"
| "step U opts s (Error err) = (case on_error U opts err s of (s', a) \<Rightarrow> (Inr s', a))"
| "step U opts s (RetryEAGAIN err) = (case retryEAGAIN U opts err s of (s', a) \<Rightarrow> (Inr s', a))"
| "step U opts s (Signal sg) = (case roll U opts s of (s', a) \<Rightarrow> (Inr s', a))"
| "step U opts s Close = (case on_close s of (s', a) \<Rightarrow> (Inr s', a))"
| "step U opts s (TimerFire h t1 t2) = timer_fire U opts h t1 t2 s"

text \<open>
  In \<open>step\<close>, the \<^verbatim>\<open>write\<close> listener exists only under \<^verbatim>\<open>if (maxSize)\<close>: a
  number is truthy unless it is 0, \<^verbatim>\<open>null\<close> and \<^verbatim>\<open>undefined\<close> are not. The
  other listeners and both signal handlers are registered unconditionally, and nothing
  in the module removes them.
\<close>

text \<open>A run handles the events in order; an uncaught exception ends it.\<close>

fun run :: "utils \<Rightarrow> options \<Rightarrow> state \<Rightarrow> event list \<Rightarrow> (error + state) \<times> action list" where
  "run U opts s [] = (Inr s, [])"
| "run U opts s (e # es) =
     (case step U opts s e of
        (Inl err, a) \<Rightarrow> (Inl err, a)
      | (Inr s', a) \<Rightarrow> (case run U opts s' es of (r, a') \<Rightarrow> (r, a @ a')))"

subsection \<open>The callbacks on a destroyed destination\<close>

text \<open>
  SonicBoom's \<^verbatim>\<open>reopen\<close> begins with
  \<^verbatim>\<open>if (this.destroyed) { throw new Error('SonicBoom destroyed') }\<close>, and a stream that
  has emitted \<^verbatim>\<open>close\<close> is destroyed. The module catches nothing, so the exception
  ends the callback that called \<^verbatim>\<open>roll()\<close>: \<^verbatim>\<open>++number\<close> and the call have
  happened, the statements after \<^verbatim>\<open>roll()\<close> have not. The functions of this section
  are the callbacks that call \<^verbatim>\<open>roll()\<close>, with this exception; on a destination that
  has not emitted \<^verbatim>\<open>close\<close> they are the callbacks above.
\<close>

definition roll_exn :: "utils \<Rightarrow> options \<Rightarrow> state \<Rightarrow> (error + state) \<times> action list" where
  "roll_exn U opts s =
     (let s1 = s\<lparr>number := number s + 1\<rparr> in
      (if dest_closed s1 then Inl SonicBoomDestroyed else Inr s1,
       [Reopen (fileName U opts (number s1))]))"

definition on_error_exn :: "utils \<Rightarrow> options \<Rightarrow> string \<Rightarrow> state \<Rightarrow> (error + state) \<times> action list" where
  "on_error_exn U opts err s =
     (if mkdir opts
      then (case roll_exn U opts s of
              (Inl e, a1) \<Rightarrow> (Inl e, a1)
            | (Inr s1, a1) \<Rightarrow> (Inr s1, a1 @ [StderrWrite (diagnostic ''Pino Error : '' err)]))
      else (Inr s, [StderrWrite (diagnostic ''Pino Error : '' err)]))"

definition retryEAGAIN_exn :: "utils \<Rightarrow> options \<Rightarrow> string \<Rightarrow> state \<Rightarrow> (error + state) \<times> action list" where
  "retryEAGAIN_exn U opts err s =
     (if mkdir opts
      then (case roll_exn U opts s of
              (Inl e, a1) \<Rightarrow> (Inl e, a1)
            | (Inr s1, a1) \<Rightarrow>
                (Inr s1, a1 @ [StderrWrite (diagnostic ''Pino retryEAGAIN : '' err)]))
      else (Inr s, [StderrWrite (diagnostic ''Pino retryEAGAIN : '' err)]))"

definition scheduled_exn :: "utils \<Rightarrow> options \<Rightarrow> int \<Rightarrow> int \<Rightarrow> state \<Rightarrow> (error + state) \<times> action list" where
  "scheduled_exn U opts t1 t2 s =
     (case roll_exn U opts s of
        (Inl e, a1) \<Rightarrow> (Inl e, a1)
      | (Inr s1, a1) \<Rightarrow>
          (case frequencySpec s1 of
             None \<Rightarrow> (Inl TypeError, a1)
           | Some fs \<Rightarrow>
               (let s2 = s1\<lparr>frequencySpec :=
                             Some (fs\<lparr>next_at := getNext U (frequency opts) t1\<rparr>)\<rparr>
                in case scheduleRoll t2 s2 of (r, a2) \<Rightarrow> (r, a1 @ a2))))"

definition timer_fire_exn :: "utils \<Rightarrow> options \<Rightarrow> nat \<Rightarrow> int \<Rightarrow> int \<Rightarrow> state \<Rightarrow> (error + state) \<times> action list" where
  "timer_fire_exn U opts h t1 t2 s =
     (case map_of (timers s) h of
        None \<Rightarrow> (Inr s, [])
      | Some (cb, d) \<Rightarrow>
          (let s0 = s\<lparr>timers := filter (\<lambda>t. fst t \<noteq> h) (timers s)\<rparr> in
           case cb of
             RollCb \<Rightarrow> roll_exn U opts s0
           | ScheduledCb \<Rightarrow> scheduled_exn U opts t1 t2 s0))"

text \<open>The \<^verbatim>\<open>write\<close> and \<^verbatim>\<open>close\<close> listeners do not call \<^verbatim>\<open>roll()\<close>.\<close>

fun step_exn :: "utils \<Rightarrow> options \<Rightarrow> state \<Rightarrow> event \<Rightarrow> (error + state) \<times> action list" where
  "step_exn U opts s (Write n) = step U opts s (Write n)"
| "step_exn U opts s (Error err) = on_error_exn U opts err s"
| "step_exn U opts s (RetryEAGAIN err) = retryEAGAIN_exn U opts err s"
| "step_exn U opts s (Signal sg) = roll_exn U opts s"
| "step_exn U opts s Close = step U opts s Close"
| "step_exn U opts s (TimerFire h t1 t2) = timer_fire_exn U opts h t1 t2 s"

fun run_exn :: "utils \<Rightarrow> options \<Rightarrow> state \<Rightarrow> event list \<Rightarrow> (error + state) \<times> action list" where
  "run_exn U opts s [] = (Inr s, [])"
| "run_exn U opts s (e # es) =
     (case step_exn U opts s e of
        (Inl err, a) \<Rightarrow> (Inl err, a)
      | (Inr s', a) \<Rightarrow> (case run_exn U opts s' es of (r, a') \<Rightarrow> (r, a @ a')))"

subsection \<open>Observations and the invariant of the closure\<close>

fun is_reopen :: "action \<Rightarrow> bool" where
  "is_reopen (Reopen p) = True"
| "is_reopen a = False"

text \<open>The rolls among the actions of a run: one \<^verbatim>\<open>reopen\<close> call per roll.\<close>

definition rolls :: "action list \<Rightarrow> action list" where
  "rolls out = filter is_reopen out"

fun is_rotation :: "nat \<times> callback \<times> int \<Rightarrow> bool" where
  "is_rotation (h, cb, d) = (cb = ScheduledCb)"

text \<open>The pending timers armed by \<^verbatim>\<open>scheduleRoll\<close>, and those armed by the write listener.\<close>

definition rotation_timers :: "state \<Rightarrow> (nat \<times> callback \<times> int) list" where
  "rotation_timers s = filter is_rotation (timers s)"

definition deferred_rolls :: "state \<Rightarrow> (nat \<times> callback \<times> int) list" where
  "deferred_rolls s = filter (\<lambda>t. \<not> is_rotation t) (timers s)"

text \<open>
  What startup establishes and every callback keeps: handles are distinct and below the
  next fresh one, and a pending timer of \<^verbatim>\<open>scheduleRoll\<close> is the one \<^verbatim>\<open>rollTimeout\<close>
  names, with \<^verbatim>\<open>frequencySpec\<close> an object, the \<^verbatim>\<open>close\<close> listener still registered and
  the destination not closed.
\<close>

definition engine_inv :: "state \<Rightarrow> bool" where
  "engine_inv s \<longleftrightarrow>
     distinct (map fst (timers s)) \<and>
     list_all (\<lambda>t. fst t < next_id s) (timers s) \<and>
     list_all (\<lambda>t. rollTimeout s = Some (fst t) \<and> frequencySpec s \<noteq> None \<and>
                    closeListener s \<and> \<not> dest_closed s) (rotation_timers s) \<and>
     pred_option (\<lambda>h. h < next_id s) (rollTimeout s)"

fun is_stderr :: "action \<Rightarrow> bool" where
  "is_stderr (StderrWrite m) = True"
| "is_stderr a = False"

fun is_construct :: "action \<Rightarrow> bool" where
  "is_construct (Construct p) = True"
| "is_construct a = False"

text \<open>
  \<open>precedes P Q out\<close>: the first action of \<open>out\<close> that satisfies \<open>P\<close> is followed
  by one that satisfies \<open>Q\<close>.
\<close>

definition precedes :: "(action \<Rightarrow> bool) \<Rightarrow> (action \<Rightarrow> bool) \<Rightarrow> action list \<Rightarrow> bool" where
  "precedes P Q out = list_ex Q (dropWhile (\<lambda>a. \<not> P a) out)"

fun nonneg_write :: "event \<Rightarrow> bool" where
  "nonneg_write (Write n) = (0 \<le> n)"
| "nonneg_write e = True"

subsection \<open>A helper module to run the model on\<close>

text \<open>
  The theorems below hold for every helper module. To evaluate the model on concrete
  inputs, the functions of \<^verbatim>\<open>./lib/utils\<close> are written out here as the
  specification describes them, over a clock reading and the sequence numbers found in
  the directory.
\<close>

text \<open>Modelled from the spec: the rendering of a sequence number in a file name
  (part of \<^verbatim>\<open>buildFileName\<close> of \<^verbatim>\<open>lib/utils\<close>), in decimal.\<close>

fun decimal :: "nat \<Rightarrow> string" where
  "decimal n =
     (if n < 10 then [''0123456789'' ! n]
      else decimal (n div 10) @ [''0123456789'' ! (n mod 10)])"

text \<open>Modelled from the spec: \<^verbatim>\<open>buildFileName\<close> of \<^verbatim>\<open>lib/utils\<close>: base name, optional
  date insertion (the token stands for the date it formats), sequence number, optional
  extension, in this order.\<close>

definition spec_buildFileName :: "string \<Rightarrow> int \<Rightarrow> string option \<Rightarrow> string option \<Rightarrow> string" where
  "spec_buildFileName f n e d =
     f @ (case d of None \<Rightarrow> [] | Some fmt \<Rightarrow> CHR ''.'' # fmt) @ CHR ''.'' # decimal (nat n)
       @ (case e of None \<Rightarrow> [] | Some x \<Rightarrow> x)"

text \<open>Modelled from the spec: \<^verbatim>\<open>detectLastNumber\<close> of \<^verbatim>\<open>lib/utils\<close>: the highest
  sequence number among the matching files of the directory, 0 when there is none;
  \<open>found\<close> lists the numbers of the matching files of the current bucket.\<close>

definition spec_detectLastNumber :: "int list \<Rightarrow> string \<Rightarrow> int option \<Rightarrow> error + int" where
  "spec_detectLastNumber found f since = Inr (fold max found 0)"

text \<open>Modelled from the spec: the digits of a size string (part of \<^verbatim>\<open>parseSize\<close> of
  \<^verbatim>\<open>lib/utils\<close>).\<close>

definition is_digit :: "char \<Rightarrow> bool" where
  "is_digit c \<longleftrightarrow> c \<in> set ''0123456789''"

text \<open>Modelled from the spec: the value of a digit string (part of \<^verbatim>\<open>parseSize\<close> of
  \<^verbatim>\<open>lib/utils\<close>).\<close>

definition digits_value :: "string \<Rightarrow> int" where
  "digits_value ds = foldl (\<lambda>a c. 10 * a + (of_char c - 48)) 0 ds"

text \<open>Modelled from the spec: \<^verbatim>\<open>parseSize\<close> of \<^verbatim>\<open>lib/utils\<close>: an integer counts
  megabytes; a string is digits and an optional unit k, m or g in either case, megabytes
  without a unit; an absent size means no limit; any other string is an invalid
  configuration.\<close>

definition spec_parseSize :: "jsval option \<Rightarrow> error + int option" where
  "spec_parseSize v =
     (case v of
        None \<Rightarrow> Inr None
      | Some (JNum n) \<Rightarrow> Inr (Some (n * 1048576))
      | Some (JStr s) \<Rightarrow>
          (let ds = takeWhile is_digit s; u = dropWhile is_digit s in
           if ds = [] then Inl InvalidConfiguration
           else if u = ''k'' \<or> u = ''K'' then Inr (Some (digits_value ds * 1024))
           else if u = [] \<or> u = ''m'' \<or> u = ''M'' then Inr (Some (digits_value ds * 1048576))
           else if u = ''g'' \<or> u = ''G'' then Inr (Some (digits_value ds * 1073741824))
           else Inl InvalidConfiguration))"

text \<open>Modelled from the spec: \<^verbatim>\<open>getNext\<close> of \<^verbatim>\<open>lib/utils\<close>: the start of the
  following day or hour, or the clock reading plus the interval; days and hours are taken
  in UTC.\<close>

definition spec_getNext :: "jsval option \<Rightarrow> int \<Rightarrow> int" where
  "spec_getNext v now =
     (case v of
        Some (JNum n) \<Rightarrow> now + n
      | Some (JStr s) \<Rightarrow>
          (if s = ''daily'' then now - now mod 86400000 + 86400000
           else if s = ''hourly'' then now - now mod 3600000 + 3600000
           else now)
      | None \<Rightarrow> now)"

text \<open>Modelled from the spec: \<^verbatim>\<open>parseFrequency\<close> of \<^verbatim>\<open>lib/utils\<close>, evaluated at the
  clock reading \<open>clock\<close>: \<^verbatim>\<open>daily\<close> and \<^verbatim>\<open>hourly\<close> start at the current day or
  hour; a positive number of milliseconds starts now, so that no existing file is resumed;
  an absent frequency gives no descriptor; anything else is an invalid configuration.\<close>

definition spec_parseFrequency :: "int \<Rightarrow> jsval option \<Rightarrow> error + frequencySpec option" where
  "spec_parseFrequency clock v =
     (case v of
        None \<Rightarrow> Inr None
      | Some (JNum n) \<Rightarrow>
          (if 0 < n then Inr (Some \<lparr>start = clock, next_at = spec_getNext v clock\<rparr>)
           else Inl InvalidConfiguration)
      | Some (JStr s) \<Rightarrow>
          (if s = ''daily''
           then Inr (Some \<lparr>start = clock - clock mod 86400000, next_at = spec_getNext v clock\<rparr>)
           else if s = ''hourly''
           then Inr (Some \<lparr>start = clock - clock mod 3600000, next_at = spec_getNext v clock\<rparr>)
           else Inl InvalidConfiguration))"

text \<open>Modelled from the spec: the module \<^verbatim>\<open>lib/utils\<close> as a whole, at a clock reading
  and a directory content.\<close>

definition spec_utils :: "int \<Rightarrow> int list \<Rightarrow> utils" where
  "spec_utils clock found =
     \<lparr>buildFileName = spec_buildFileName,
      detectLastNumber = spec_detectLastNumber found,
      parseSize = spec_parseSize,
      parseFrequency = spec_parseFrequency clock,
      getNext = spec_getNext\<rparr>"

text \<open>
  A configuration with a size limit of 1 KB, daily rotation and directory auto-creation,
  and the closure startup builds from it at clock reading 1000 in an empty directory.
\<close>

definition example_opts :: options where
  "example_opts =
     \<lparr>file_opt = ''app.log'', size_opt = Some (JStr ''1k''), frequency = Some (JStr ''daily''),
      dateFormat = None, extension = None, mkdir = True\<rparr>"

definition example_state :: state where
  "example_state =
     \<lparr>number = 0, currentSize = 0, maxSize = Some 1024,
      frequencySpec = Some \<lparr>start = 0, next_at = 86400000\<rparr>,
      rollTimeout = Some 0, timers = [(0, ScheduledCb, 86399000)], next_id = 1,
      closeListener = True, dest_closed = False\<rparr>"

subsection \<open>Evaluation\<close>

declare decimal.simps [simp del]

lemmas eval_defs = startup_def spec_utils_def example_opts_def example_state_def
  spec_parseFrequency_def spec_getNext_def spec_detectLastNumber_def spec_parseSize_def
  is_digit_def digits_value_def scheduleRoll_def clearTimeout_def setTimeout_def fileName_def
  spec_buildFileName_def decimal.simps roll_def on_write_def on_close_def on_error_def
  retryEAGAIN_def scheduled_def timer_fire_def diagnostic_def rolls_def rotation_timers_def
  deferred_rolls_def precedes_def Let_def

lemmas exn_defs = roll_exn_def on_error_exn_def retryEAGAIN_exn_def scheduled_exn_def
  timer_fire_exn_def

text \<open>
  The helper module meets the byte counts and the failure the specification lists for
  the size parser.
\<close>

lemma spec_parseSize_examples:
  "map spec_parseSize [Some (JStr ''10k''), Some (JStr ''5m''), Some (JStr ''2g''), Some (JNum 100)] =
     [Inr (Some 10240), Inr (Some 5242880), Inr (Some 2147483648), Inr (Some 104857600)]"
  "spec_parseSize (Some (JStr ''5x'')) = Inl InvalidConfiguration"
  by (simp_all add: eval_defs)

lemma example_state_inv: "engine_inv example_state"
  by (simp add: engine_inv_def rotation_timers_def example_state_def)

subsection \<open>The invariant is established by startup and kept by every callback\<close>

lemma engine_inv_iff:
  "engine_inv s \<longleftrightarrow>
     distinct (map fst (timers s)) \<and>
     (\<forall>t \<in> set (timers s). fst t < next_id s) \<and>
     (\<forall>h d. (h, ScheduledCb, d) \<in> set (timers s) \<longrightarrow>
        rollTimeout s = Some h \<and> frequencySpec s \<noteq> None \<and> closeListener s \<and> \<not> dest_closed s) \<and>
     (\<forall>h. rollTimeout s = Some h \<longrightarrow> h < next_id s)"
proof -
  have a: "pred_option (\<lambda>h. h < next_id s) (rollTimeout s) \<longleftrightarrow> (\<forall>h. rollTimeout s = Some h \<longrightarrow> h < next_id s)"
    by (cases "rollTimeout s") simp_all
  have b: "list_all (\<lambda>t. rollTimeout s = Some (fst t) \<and> frequencySpec s \<noteq> None \<and>
                    closeListener s \<and> \<not> dest_closed s) (rotation_timers s) \<longleftrightarrow>
     (\<forall>h d. (h, ScheduledCb, d) \<in> set (timers s) \<longrightarrow>
        rollTimeout s = Some h \<and> frequencySpec s \<noteq> None \<and> closeListener s \<and> \<not> dest_closed s)"
    unfolding rotation_timers_def list_all_iff by force
  show ?thesis
    unfolding engine_inv_def a b by (simp add: list_all_iff)
qed

lemma rotation_timers_filter:
  "engine_inv s \<Longrightarrow> rollTimeout s = Some h \<Longrightarrow> filter is_rotation (filter (\<lambda>t. fst t \<noteq> h) (timers s)) = []"
  unfolding engine_inv_iff filter_empty_conv by force

lemma engine_inv_number [simp]: "engine_inv (s\<lparr>number := n\<rparr>) = engine_inv s"
  by (simp add: engine_inv_iff)

lemma engine_inv_currentSize [simp]: "engine_inv (s\<lparr>currentSize := n\<rparr>) = engine_inv s"
  by (simp add: engine_inv_iff)

lemma on_write_inv: "engine_inv s \<Longrightarrow> engine_inv (fst (on_write m n s))"
  unfolding engine_inv_iff by (auto simp: on_write_def Let_def setTimeout_def less_Suc_eq)

lemma on_close_inv: "engine_inv s \<Longrightarrow> engine_inv (fst (on_close s))"
  unfolding engine_inv_iff 
  by (cases "rollTimeout s") (auto simp: on_close_def clearTimeout_def distinct_map_filter)

lemma scheduleRoll_inv:
  assumes "engine_inv s" "frequencySpec s \<noteq> None" "closeListener s" "\<not> dest_closed s"
    "rotation_timers s = [] \<or> rollTimeout s \<noteq> None"
  shows "\<exists>s' a. scheduleRoll now s = (Inr s', a) \<and> engine_inv s'"
proof -
  from assms(2) obtain fs where fs: "frequencySpec s = Some fs" by auto
  show ?thesis
  proof (cases "rollTimeout s")
    case None
    with assms(5) have "\<forall>h d. (h, ScheduledCb, d) \<notin> set (timers s)"
      unfolding rotation_timers_def filter_empty_conv by auto
    with assms(1,3,4) None fs show ?thesis
      unfolding engine_inv_iff
      by (auto simp: scheduleRoll_def clearTimeout_def setTimeout_def less_Suc_eq)
  next
    case (Some h)
    with assms(1,3,4) fs show ?thesis
      unfolding engine_inv_iff
      by (auto simp: scheduleRoll_def clearTimeout_def setTimeout_def less_Suc_eq distinct_map_filter)
  qed
qed

lemma fired_inv:
  "engine_inv s \<Longrightarrow> engine_inv (s\<lparr>timers := filter (\<lambda>t. fst t \<noteq> h) (timers s)\<rparr>)"
  unfolding engine_inv_iff by (auto simp: distinct_map_filter)

lemma scheduled_inv:
  assumes "engine_inv s" "frequencySpec s \<noteq> None" "closeListener s" "\<not> dest_closed s"
    "rotation_timers s = []"
  shows "\<exists>s' a. scheduled U opts t1 t2 s = (Inr s', a) \<and> engine_inv s'"
proof -
  from assms(2) obtain fs where fs: "frequencySpec s = Some fs" by auto
  let ?s2 = "s\<lparr>number := number s + 1, frequencySpec := Some (fs\<lparr>next_at := getNext U (frequency opts) t1\<rparr>)\<rparr>"
  have inv2: "engine_inv ?s2" using assms(1) unfolding engine_inv_iff by simp
  have "rotation_timers ?s2 = []" using assms(5) by (simp add: rotation_timers_def)
  with scheduleRoll_inv[OF inv2, of t2] assms(3,4)
  obtain s' a where "scheduleRoll t2 ?s2 = (Inr s', a)" "engine_inv s'" by auto
  then show ?thesis using fs by (simp add: scheduled_def roll_def)
qed

lemma timer_fire_inv:
  assumes "engine_inv s"
  shows "\<exists>s' a. timer_fire U opts h t1 t2 s = (Inr s', a) \<and> engine_inv s'"
proof (cases "map_of (timers s) h")
  case None
  then show ?thesis using assms by (simp add: timer_fire_def)
next
  case (Some p)
  obtain cb d where p: "p = (cb, d)" by (cases p)
  let ?s0 = "s\<lparr>timers := filter (\<lambda>t. fst t \<noteq> h) (timers s)\<rparr>"
  have inv0: "engine_inv ?s0" by (rule fired_inv[OF assms])
  show ?thesis
  proof (cases cb)
    case RollCb
    with Some p inv0 show ?thesis by (simp add: timer_fire_def roll_def)
  next
    case ScheduledCb
    with Some p have mem: "(h, ScheduledCb, d) \<in> set (timers s)" by (auto dest: map_of_SomeD)
    with assms have rt: "rollTimeout s = Some h" and f: "frequencySpec s \<noteq> None"
      and c: "closeListener s" and d: "\<not> dest_closed s"
      unfolding engine_inv_iff by blast+
    have "rotation_timers ?s0 = []"
      using rotation_timers_filter[OF assms rt] by (simp add: rotation_timers_def)
    with scheduled_inv[OF inv0, of U opts t1 t2] f c d
    obtain s' a where "scheduled U opts t1 t2 ?s0 = (Inr s', a)" "engine_inv s'" by auto
    with Some p ScheduledCb show ?thesis by (simp add: timer_fire_def)
  qed
qed

lemma step_inv:
  assumes "engine_inv s"
  shows "\<exists>s' a. step U opts s e = (Inr s', a) \<and> engine_inv s'"
proof (cases e)
  case (Write n)
  show ?thesis
  proof (cases "maxSize s")
    case None
    with Write assms show ?thesis by simp
  next
    case (Some m)
    with Write assms on_write_inv[OF assms, of m n] show ?thesis
      by (cases "on_write m n s") auto
  qed
next
  case (Error err)
  with assms show ?thesis by (simp add: on_error_def roll_def)
next
  case (RetryEAGAIN err)
  with assms show ?thesis by (simp add: retryEAGAIN_def roll_def)
next
  case (Signal sg)
  with assms show ?thesis by (simp add: roll_def)
next
  case Close
  with on_close_inv[OF assms] show ?thesis by (cases "on_close s") auto
next
  case (TimerFire h t1 t2)
  with timer_fire_inv[OF assms] show ?thesis by simp
qed

lemma run_inv:
  "engine_inv s \<Longrightarrow> \<exists>s' a. run U opts s es = (Inr s', a) \<and> engine_inv s'"
proof (induction es arbitrary: s)
  case Nil
  then show ?case by simp
next
  case (Cons e es)
  from step_inv[OF Cons.prems] obtain s1 a1
    where s1: "step U opts s e = (Inr s1, a1)" "engine_inv s1" by blast
  from Cons.IH[OF s1(2)] obtain s2 a2
    where "run U opts s1 es = (Inr s2, a2)" "engine_inv s2" by blast
  with s1 show ?case by simp
qed

lemma startup_inv:
  assumes "startup U opts now = (Inr s, a)"
  shows "engine_inv s"
proof -
  from assms obtain fso n ms where
    pf: "parseFrequency U (frequency opts) = Inr fso" and
    dn: "detectLastNumber U (file_opt opts) (map_option start fso) = Inr n" and
    ps: "parseSize U (size_opt opts) = Inr ms"
    by (auto simp: startup_def Let_def split: sum.splits)
  let ?s0 = "\<lparr>number = n, currentSize = 0, maxSize = ms, frequencySpec = fso,
              rollTimeout = None, timers = [], next_id = 0, closeListener = False,
              dest_closed = False\<rparr>"
  have inv0: "engine_inv ?s0" by (simp add: engine_inv_iff)
  show ?thesis
  proof (cases fso)
    case None
    with assms pf dn ps inv0 show ?thesis by (auto simp: startup_def Let_def)
  next
    case (Some fs)
    have inv1: "engine_inv (?s0\<lparr>closeListener := True\<rparr>)" by (simp add: engine_inv_iff)
    from scheduleRoll_inv[OF inv1, of now] Some
    obtain s' a' where "scheduleRoll now (?s0\<lparr>closeListener := True\<rparr>) = (Inr s', a')" "engine_inv s'"
      by (auto simp: rotation_timers_def)
    with assms pf dn ps Some show ?thesis by (auto simp: startup_def Let_def)
  qed
qed


subsection \<open>The expiry of the rotation timer\<close>

lemma clearTimeout_fields [simp]:
  "number (clearTimeout h s) = number s"
  "currentSize (clearTimeout h s) = currentSize s"
  "maxSize (clearTimeout h s) = maxSize s"
  "frequencySpec (clearTimeout h s) = frequencySpec s"
  "rollTimeout (clearTimeout h s) = rollTimeout s"
  "next_id (clearTimeout h s) = next_id s"
  "closeListener (clearTimeout h s) = closeListener s"
  "dest_closed (clearTimeout h s) = dest_closed s"
  by (simp_all add: clearTimeout_def split: option.splits)

lemma not_rotation_iff:
  assumes "engine_inv s" "(h, ScheduledCb, d) \<in> set (timers s)" "t \<in> set (timers s)"
  shows "fst t \<noteq> h \<longleftrightarrow> \<not> is_rotation t"
proof
  assume ne: "fst t \<noteq> h"
  obtain h' cb d' where t: "t = (h', cb, d')" by (cases t)
  show "\<not> is_rotation t"
  proof
    assume "is_rotation t"
    with t have "(h', ScheduledCb, d') \<in> set (timers s)" using assms(3) by simp
    with assms(1,2) have "rollTimeout s = Some h'" "rollTimeout s = Some h"
      unfolding engine_inv_iff by blast+
    with ne t show False by simp
  qed
next
  assume nr: "\<not> is_rotation t"
  show "fst t \<noteq> h"
  proof
    assume "fst t = h"
    moreover from assms(1) have "distinct (map fst (timers s))" unfolding engine_inv_iff by simp
    ultimately have "t = (h, ScheduledCb, d)"
      using assms(2,3) by (metis eq_key_imp_eq_value prod.collapse)
    with nr show False by simp
  qed
qed

lemma fired_rotation_timers:
  assumes "engine_inv s" "(h, ScheduledCb, d) \<in> set (timers s)"
  shows "filter (\<lambda>t. fst t \<noteq> h) (timers s) = deferred_rolls s"
  unfolding deferred_rolls_def
  by (rule filter_cong[OF refl]) (rule not_rotation_iff[OF assms])

lemma rotation_fire:
  assumes "engine_inv s" "(h, ScheduledCb, d) \<in> set (timers s)"
  shows "\<exists>fs. frequencySpec s = Some fs \<and>
     timer_fire U opts h t1 t2 s =
       (Inr (s\<lparr>number := number s + 1,
               frequencySpec := Some (fs\<lparr>next_at := getNext U (frequency opts) t1\<rparr>),
               rollTimeout := Some (next_id s),
               timers := deferred_rolls s @
                 [(next_id s, ScheduledCb, getNext U (frequency opts) t1 - t2)],
               next_id := Suc (next_id s)\<rparr>),
        [Reopen (fileName U opts (number s + 1)), ClearTimeout (Some h),
         SetTimeout (next_id s) ScheduledCb (getNext U (frequency opts) t1 - t2)])"
proof -
  from assms have rt: "rollTimeout s = Some h" and "frequencySpec s \<noteq> None"
    and dist: "distinct (map fst (timers s))"
    unfolding engine_inv_iff by blast+
  then obtain fs where fs: "frequencySpec s = Some fs" by auto
  have m: "map_of (timers s) h = Some (ScheduledCb, d)"
    using dist assms(2) by (rule map_of_is_SomeI)
  have f: "filter (\<lambda>t. fst t \<noteq> h) (timers s) = deferred_rolls s"
    by (rule fired_rotation_timers[OF assms])
  have f2: "filter (\<lambda>t. fst t \<noteq> h) (deferred_rolls s) = deferred_rolls s"
    unfolding f[symmetric] by simp
  show ?thesis
    using fs rt m
    by (simp add: timer_fire_def scheduled_def roll_def scheduleRoll_def setTimeout_def
        clearTimeout_def f f2)
qed


subsection \<open>Sequence numbers\<close>

lemma rolls_append [simp]: "rolls (a @ b) = rolls a @ rolls b"
  by (simp add: rolls_def)

lemma step_rolls:
  assumes "engine_inv s"
  shows "\<exists>s' a. step U opts s e = (Inr s', a) \<and> engine_inv s' \<and>
           (rolls a = [] \<and> number s' = number s \<or>
            rolls a = [Reopen (fileName U opts (number s + 1))] \<and> number s' = number s + 1)"
proof -
  from step_inv[OF assms] obtain s' a
    where st: "step U opts s e = (Inr s', a)" and inv: "engine_inv s'" by blast
  have "rolls a = [] \<and> number s' = number s \<or>
        rolls a = [Reopen (fileName U opts (number s + 1))] \<and> number s' = number s + 1"
  proof (cases e)
    case (Write n)
    with st show ?thesis
      by (auto simp: on_write_def setTimeout_def rolls_def Let_def
          split: option.splits if_splits)
  next
    case (Error err)
    with st show ?thesis by (auto simp: on_error_def roll_def rolls_def split: if_splits)
  next
    case (RetryEAGAIN err)
    with st show ?thesis by (auto simp: retryEAGAIN_def roll_def rolls_def split: if_splits)
  next
    case (Signal sg)
    with st show ?thesis by (auto simp: roll_def rolls_def)
  next
    case Close
    with st show ?thesis by (auto simp: on_close_def rolls_def split: if_splits)
  next
    case (TimerFire h t1 t2)
    show ?thesis
    proof (cases "map_of (timers s) h")
      case None
      with st TimerFire show ?thesis by (auto simp: timer_fire_def rolls_def)
    next
      case (Some p)
      obtain cb d where p: "p = (cb, d)" by (cases p)
      show ?thesis
      proof (cases cb)
        case RollCb
        with st TimerFire Some p show ?thesis
          by (auto simp: timer_fire_def roll_def rolls_def)
      next
        case ScheduledCb
        with Some p have "(h, ScheduledCb, d) \<in> set (timers s)"
          by (auto dest: map_of_SomeD)
        from rotation_fire[OF assms this, of U opts t1 t2] st TimerFire
        show ?thesis by (auto simp: rolls_def)
      qed
    qed
  qed
  with st inv show ?thesis by blast
qed

lemma run_rolls:
  assumes "engine_inv s"
  shows "\<exists>s' out. run U opts s es = (Inr s', out) \<and> engine_inv s' \<and>
           number s \<le> number s' \<and>
           rolls out = map (\<lambda>n. Reopen (fileName U opts n)) [number s + 1 .. number s']"
  using assms
proof (induction es arbitrary: s)
  case Nil
  then show ?case by (simp add: rolls_def)
next
  case (Cons e es)
  from step_rolls[OF Cons.prems, of U opts e] obtain s1 a1 where
    st: "step U opts s e = (Inr s1, a1)" and inv1: "engine_inv s1" and
    r1: "rolls a1 = [] \<and> number s1 = number s \<or>
         rolls a1 = [Reopen (fileName U opts (number s + 1))] \<and> number s1 = number s + 1"
    by blast
  from Cons.IH[OF inv1] obtain s2 a2 where
    rn: "run U opts s1 es = (Inr s2, a2)" and inv2: "engine_inv s2" and
    le: "number s1 \<le> number s2" and
    r2: "rolls a2 = map (\<lambda>n. Reopen (fileName U opts n)) [number s1 + 1 .. number s2]"
    by blast
  have run: "run U opts s (e # es) = (Inr s2, a1 @ a2)" using st rn by simp
  from r1 have "number s \<le> number s2 \<and>
      rolls (a1 @ a2) = map (\<lambda>n. Reopen (fileName U opts n)) [number s + 1 .. number s2]"
  proof
    assume "rolls a1 = [] \<and> number s1 = number s"
    with le r2 show ?thesis by simp
  next
    assume a: "rolls a1 = [Reopen (fileName U opts (number s + 1))] \<and> number s1 = number s + 1"
    with le have "number s + 1 \<le> number s2" by simp
    then have "[number s + 1 .. number s2] = (number s + 1) # [number s + 1 + 1 .. number s2]"
      by (rule upto_rec1)
    with a le r2 show ?thesis by simp
  qed
  with run inv2 show ?case by blast
qed

text \<open>
  Claim C1. In every run, the sequence number never decreases and each roll raises it by
  exactly 1, whichever callback rolled: from a closure that satisfies the invariant, every
  list of events runs to the end, the \<^verbatim>\<open>reopen\<close> calls of the run are those for the
  numbers \<open>number s + 1\<close> up to the final number, one each and in this order, and the
  final number is the initial one plus the number of rolls. So no two rolls take the same
  number, and a size roll and a timer roll, in either order, end at the initial number
  plus 2.
\<close>

theorem sequence_number_counts_rolls:
  assumes "engine_inv s"
  shows "\<exists>s' out. run U opts s es = (Inr s', out) \<and>
           number s \<le> number s' \<and>
           rolls out = map (\<lambda>n. Reopen (fileName U opts n)) [number s + 1 .. number s'] \<and>
           number s' = number s + int (length (rolls out))"
proof -
  from run_rolls[OF assms, of U opts es] obtain s' out where
    r: "run U opts s es = (Inr s', out)" "number s \<le> number s'"
       "rolls out = map (\<lambda>n. Reopen (fileName U opts n)) [number s + 1 .. number s']"
    by blast
  from r(2,3) have "number s' = number s + int (length (rolls out))" by simp
  with r show ?thesis by blast
qed

theorem sequence_number_counts_rolls_witness:
  "engine_inv example_state \<and>
   (case run (spec_utils 1000 []) example_opts example_state
           [Write 600, Write 500, TimerFire 1 0 0, TimerFire 0 86400000 86400001] of
      (Inr s', out) \<Rightarrow>
        number s' = number example_state + 2 \<and>
        rolls out = [Reopen ''app.log.1'', Reopen ''app.log.2'']
    | (Inl e, out) \<Rightarrow> False) \<and>
   (case run (spec_utils 1000 []) example_opts example_state
           [Write 600, Write 500, TimerFire 0 86400000 86400001, TimerFire 1 0 0] of
      (Inr s', out) \<Rightarrow>
        number s' = number example_state + 2 \<and>
        rolls out = [Reopen ''app.log.1'', Reopen ''app.log.2'']
    | (Inl e, out) \<Rightarrow> False)"
  using example_state_inv
    sequence_number_counts_rolls [OF example_state_inv, of "spec_utils 1000 []" example_opts
      "[Write 600, Write 500, TimerFire 1 0 0, TimerFire 0 86400000 86400001]"]
  by (simp add: eval_defs)


subsection \<open>The size trigger\<close>

lemma fresh_handle:
  assumes "engine_inv s"
  shows "map_of (timers s @ [(next_id s, cb, d)]) (next_id s) = Some (cb, d)"
    and "filter (\<lambda>t. fst t \<noteq> next_id s) (timers s @ [(next_id s, cb, d)]) = timers s"
proof -
  from assms have lt: "\<forall>t \<in> set (timers s). fst t < next_id s"
    unfolding engine_inv_iff by simp
  then have "next_id s \<notin> fst ` set (timers s)" by auto
  then have "map_of (timers s) (next_id s) = None" by (simp add: map_of_eq_None_iff)
  then show "map_of (timers s @ [(next_id s, cb, d)]) (next_id s) = Some (cb, d)"
    by (simp add: map_add_def)
  from lt have "filter (\<lambda>t. fst t \<noteq> next_id s) (timers s) = timers s"
    by (auto simp: filter_id_conv)
  then show "filter (\<lambda>t. fst t \<noteq> next_id s) (timers s @ [(next_id s, cb, d)]) = timers s"
    by simp
qed

text \<open>
  Claim C2. With a byte limit configured (\<^verbatim>\<open>maxSize\<close> truthy), the \<^verbatim>\<open>write\<close>
  listener adds the reported byte count to \<^verbatim>\<open>currentSize\<close>. Below the limit nothing
  else happens. Once the sum reaches the limit, \<^verbatim>\<open>currentSize\<close> is reset to 0 in the
  listener, exactly one timer with callback \<^verbatim>\<open>roll\<close> and delay 0 is armed, and the
  listener itself calls no \<^verbatim>\<open>reopen\<close> and leaves the number as it was; the expiry of
  that timer is then one roll, and \<^verbatim>\<open>currentSize\<close> is still 0 after it.
\<close>

theorem size_trigger_defers_one_roll:
  assumes "engine_inv s" "maxSize s = Some m" "m \<noteq> 0"
  shows "(currentSize s + n < m \<longrightarrow>
            step U opts s (Write n) = (Inr (s\<lparr>currentSize := currentSize s + n\<rparr>), [])) \<and>
         (m \<le> currentSize s + n \<longrightarrow>
            step U opts s (Write n) =
              (Inr (s\<lparr>currentSize := 0, timers := timers s @ [(next_id s, RollCb, 0)],
                     next_id := Suc (next_id s)\<rparr>),
               [SetTimeout (next_id s) RollCb 0]) \<and>
            step U opts
               (s\<lparr>currentSize := 0, timers := timers s @ [(next_id s, RollCb, 0)],
                  next_id := Suc (next_id s)\<rparr>)
               (TimerFire (next_id s) t1 t2) =
              (Inr (s\<lparr>currentSize := 0, number := number s + 1, next_id := Suc (next_id s)\<rparr>),
               [Reopen (fileName U opts (number s + 1))]))"
  using assms(2,3) fresh_handle[OF assms(1), of RollCb 0]
  by (simp add: on_write_def setTimeout_def timer_fire_def roll_def)

theorem size_trigger_defers_one_roll_witness:
  "engine_inv (example_state\<lparr>maxSize := Some 1000, currentSize := 600\<rparr>) \<and>
   maxSize (example_state\<lparr>maxSize := Some 1000, currentSize := 600\<rparr>) = Some 1000 \<and>
   (1000::int) \<noteq> 0 \<and>
   run (spec_utils 1000 []) example_opts (example_state\<lparr>maxSize := Some 1000\<rparr>)
       [Write 600, Write 500] =
     (Inr (example_state\<lparr>maxSize := Some 1000, currentSize := 0,
            timers := [(0, ScheduledCb, 86399000), (1, RollCb, 0)], next_id := 2\<rparr>),
      [SetTimeout 1 RollCb 0]) \<and>
   run (spec_utils 1000 []) example_opts (example_state\<lparr>maxSize := Some 1000\<rparr>)
       [Write 600, Write 500, TimerFire 1 0 0] =
     (Inr (example_state\<lparr>maxSize := Some 1000, currentSize := 0, number := 1, next_id := 2\<rparr>),
      [SetTimeout 1 RollCb 0, Reopen ''app.log.1''])"
proof -
  have inv: "engine_inv (example_state\<lparr>maxSize := Some 1000, currentSize := 600\<rparr>)"
    by (simp add: engine_inv_def rotation_timers_def example_state_def)
  have ms: "maxSize (example_state\<lparr>maxSize := Some 1000, currentSize := 600\<rparr>) = Some 1000"
    by simp
  show ?thesis
    using inv size_trigger_defers_one_roll [OF inv ms, of 500 "spec_utils 1000 []" example_opts 0 0]
    by (simp add: eval_defs)
qed


subsection \<open>The time trigger\<close>

lemma single_key:
  assumes "distinct (map fst xs)" "\<forall>t \<in> set xs. fst t = k"
  shows "length xs \<le> 1"
proof (cases xs)
  case Nil
  then show ?thesis by simp
next
  case (Cons x ys)
  show ?thesis
  proof (cases ys)
    case Nil
    with Cons show ?thesis by simp
  next
    case (Cons y zs)
    with \<open>xs = x # ys\<close> assms have "fst x = fst y" "fst x \<noteq> fst y" by auto
    then show ?thesis by simp
  qed
qed

lemma rotation_timers_le_1:
  assumes "engine_inv s"
  shows "length (rotation_timers s) \<le> 1"
proof (cases "rollTimeout s")
  case None
  with assms have "rotation_timers s = []"
    unfolding engine_inv_iff rotation_timers_def filter_empty_conv by auto
  then show ?thesis by simp
next
  case (Some k)
  from assms have "distinct (map fst (timers s))" unfolding engine_inv_iff by simp
  then have "distinct (map fst (rotation_timers s))"
    unfolding rotation_timers_def by (rule distinct_map_filter)
  moreover from assms Some have "\<forall>t \<in> set (rotation_timers s). fst t = k"
    unfolding engine_inv_iff rotation_timers_def by auto
  ultimately show ?thesis by (rule single_key)
qed

lemma rotation_timers_single:
  assumes "engine_inv s" "(h, ScheduledCb, d) \<in> set (timers s)"
  shows "rotation_timers s = [(h, ScheduledCb, d)]"
proof -
  from assms(2) have mem: "(h, ScheduledCb, d) \<in> set (rotation_timers s)"
    by (simp add: rotation_timers_def)
  from rotation_timers_le_1[OF assms(1)] mem show ?thesis
    by (cases "rotation_timers s") auto
qed

lemma rotation_timers_deferred [simp]:
  "filter is_rotation (deferred_rolls s) = []"
  by (simp add: deferred_rolls_def)

text \<open>
  Claim C3. At most one timer of \<^verbatim>\<open>scheduleRoll\<close> is pending at any time. When it
  fires, the callback first rolls, then assigns \<^verbatim>\<open>getNext(frequency)\<close> to
  \<^verbatim>\<open>frequencySpec.next\<close>, then arms one new timer whose delay is that new deadline
  minus the clock reading, which is again the only pending timer of \<^verbatim>\<open>scheduleRoll\<close>.
\<close>

theorem rotation_timer_single_and_rearmed:
  assumes "engine_inv s"
  shows "length (rotation_timers s) \<le> 1 \<and>
    (\<forall>h d. (h, ScheduledCb, d) \<in> set (timers s) \<longrightarrow>
       rotation_timers s = [(h, ScheduledCb, d)] \<and>
       (\<exists>fs s'. frequencySpec s = Some fs \<and>
          step U opts s (TimerFire h t1 t2) =
            (Inr s',
             [Reopen (fileName U opts (number s + 1)), ClearTimeout (Some h),
              SetTimeout (next_id s) ScheduledCb (getNext U (frequency opts) t1 - t2)]) \<and>
          number s' = number s + 1 \<and>
          frequencySpec s' = Some (fs\<lparr>next_at := getNext U (frequency opts) t1\<rparr>) \<and>
          rollTimeout s' = Some (next_id s) \<and>
          rotation_timers s' =
            [(next_id s, ScheduledCb, getNext U (frequency opts) t1 - t2)] \<and>
          deferred_rolls s' = deferred_rolls s \<and>
          currentSize s' = currentSize s))"
proof (intro conjI allI impI)
  show "length (rotation_timers s) \<le> 1" by (rule rotation_timers_le_1[OF assms])
next
  fix h d assume mem: "(h, ScheduledCb, d) \<in> set (timers s)"
  show "rotation_timers s = [(h, ScheduledCb, d)]"
    by (rule rotation_timers_single[OF assms mem])
  from rotation_fire[OF assms mem, of U opts t1 t2]
  show "\<exists>fs s'. frequencySpec s = Some fs \<and>
          step U opts s (TimerFire h t1 t2) =
            (Inr s',
             [Reopen (fileName U opts (number s + 1)), ClearTimeout (Some h),
              SetTimeout (next_id s) ScheduledCb (getNext U (frequency opts) t1 - t2)]) \<and>
          number s' = number s + 1 \<and>
          frequencySpec s' = Some (fs\<lparr>next_at := getNext U (frequency opts) t1\<rparr>) \<and>
          rollTimeout s' = Some (next_id s) \<and>
          rotation_timers s' =
            [(next_id s, ScheduledCb, getNext U (frequency opts) t1 - t2)] \<and>
          deferred_rolls s' = deferred_rolls s \<and>
          currentSize s' = currentSize s"
    by (auto simp: rotation_timers_def deferred_rolls_def)
qed

theorem rotation_timer_single_and_rearmed_witness:
  "startup (spec_utils 1000 []) example_opts 1000 =
     (Inr example_state,
      [ScanDirectory ''app.log'' (Some 0), Construct ''app.log.0'', ClearTimeout None,
       SetTimeout 0 ScheduledCb 86399000]) \<and>
   engine_inv example_state \<and>
   rotation_timers example_state = [(0, ScheduledCb, 86399000)] \<and>
   step (spec_utils 1000 []) example_opts example_state (TimerFire 0 86400000 86400005) =
     (Inr (example_state\<lparr>number := 1,
            frequencySpec := Some \<lparr>start = 0, next_at = 172800000\<rparr>,
            rollTimeout := Some 1, timers := [(1, ScheduledCb, 86399995)], next_id := 2\<rparr>),
      [Reopen ''app.log.1'', ClearTimeout (Some 0), SetTimeout 1 ScheduledCb 86399995])"
  using example_state_inv
    rotation_timer_single_and_rearmed [OF example_state_inv, of "spec_utils 1000 []"
      example_opts 86400000 86400005]
  by (simp add: eval_defs)


subsection \<open>After the destination has closed\<close>

lemma quiet_step:
  assumes "rotation_timers s = []"
  shows "\<exists>s' a. step U opts s e = (Inr s', a) \<and> rotation_timers s' = [] \<and>
           (dest_closed s \<longrightarrow> dest_closed s') \<and> next_id s \<le> next_id s' \<and>
           fst ` set (timers s') \<subseteq> fst ` set (timers s) \<union> {next_id s}"
proof (cases e)
  case (Write n)
  with assms show ?thesis
    by (auto simp: on_write_def setTimeout_def rotation_timers_def Let_def split: option.splits)
next
  case (Error err)
  with assms show ?thesis by (auto simp: on_error_def roll_def rotation_timers_def)
next
  case (RetryEAGAIN err)
  with assms show ?thesis by (auto simp: retryEAGAIN_def roll_def rotation_timers_def)
next
  case (Signal sg)
  with assms show ?thesis by (auto simp: roll_def rotation_timers_def)
next
  case Close
  with assms show ?thesis
    by (cases "rollTimeout s")
       (auto simp: on_close_def clearTimeout_def rotation_timers_def filter_empty_conv)
next
  case (TimerFire h t1 t2)
  show ?thesis
  proof (cases "map_of (timers s) h")
    case None
    with TimerFire assms show ?thesis by (auto simp: timer_fire_def)
  next
    case (Some p)
    obtain cb d where p: "p = (cb, d)" by (cases p)
    with Some have "(h, cb, d) \<in> set (timers s)" by (auto dest: map_of_SomeD)
    with assms have cb: "cb = RollCb"
      unfolding rotation_timers_def filter_empty_conv by (cases cb) auto
    with TimerFire Some p assms show ?thesis
      by (auto simp: timer_fire_def roll_def rotation_timers_def filter_empty_conv)
  qed
qed

lemma quiet_run:
  assumes "rotation_timers s = []" "dest_closed s" "h < next_id s" "h \<notin> fst ` set (timers s)"
  shows "\<exists>s' out. run U opts s es = (Inr s', out) \<and> rotation_timers s' = [] \<and>
           dest_closed s' \<and> h < next_id s' \<and> h \<notin> fst ` set (timers s')"
  using assms
proof (induction es arbitrary: s)
  case Nil
  then show ?case by simp
next
  case (Cons e es)
  from quiet_step[OF Cons.prems(1), of U opts e] obtain s1 a1 where
    st: "step U opts s e = (Inr s1, a1)" and q: "rotation_timers s1 = []" and
    c: "dest_closed s \<longrightarrow> dest_closed s1" and n: "next_id s \<le> next_id s1" and
    t: "fst ` set (timers s1) \<subseteq> fst ` set (timers s) \<union> {next_id s}"
    by blast
  from Cons.prems c have c1: "dest_closed s1" by simp
  from Cons.prems n have n1: "h < next_id s1" by simp
  from Cons.prems t have t1: "h \<notin> fst ` set (timers s1)" by auto
  from Cons.IH[OF q c1 n1 t1] obtain s2 a2 where
    "run U opts s1 es = (Inr s2, a2)" "rotation_timers s2 = []" "dest_closed s2"
    "h < next_id s2" "h \<notin> fst ` set (timers s2)"
    by blast
  with st show ?case by simp
qed

lemma close_step:
  assumes "engine_inv s"
  shows "\<exists>s1. step U opts s Close =
            (Inr s1, if closeListener s then [ClearTimeout (rollTimeout s)] else []) \<and>
          dest_closed s1 \<and> rotation_timers s1 = [] \<and> number s1 = number s \<and>
          next_id s1 = next_id s \<and> set (timers s1) \<subseteq> set (timers s) \<and>
          (\<forall>h. rollTimeout s = Some h \<and> closeListener s \<longrightarrow> h \<notin> fst ` set (timers s1))"
proof (cases "closeListener s")
  case True
  show ?thesis
  proof (cases "rollTimeout s")
    case None
    with assms True show ?thesis
      unfolding engine_inv_iff rotation_timers_def filter_empty_conv
      by (auto simp: on_close_def clearTimeout_def)
  next
    case (Some k)
    with assms True show ?thesis
      unfolding engine_inv_iff rotation_timers_def filter_empty_conv
      by (auto simp: on_close_def clearTimeout_def)
  qed
next
  case False
  with assms show ?thesis
    unfolding engine_inv_iff rotation_timers_def filter_empty_conv
    by (auto simp: on_close_def)
qed

lemma dead_timer_fire:
  assumes "h \<notin> fst ` set (timers s)"
  shows "step U opts s (TimerFire h t1 t2) = (Inr s, [])"
proof -
  from assms have "map_of (timers s) h = None" by (simp add: map_of_eq_None_iff)
  then show ?thesis by (simp add: timer_fire_def)
qed

text \<open>
  The timer of \<^verbatim>\<open>scheduleRoll\<close> is the one \<^verbatim>\<open>close\<close> cancels: the listener clears
  the handle \<^verbatim>\<open>rollTimeout\<close> names. After it, whatever callbacks follow, no timer of
  \<^verbatim>\<open>scheduleRoll\<close> is pending again, and the expiry of the cleared handle runs
  nothing: no roll, no action, no error.
\<close>

theorem close_cancels_rotation_timer:
  assumes "engine_inv s" "(h, ScheduledCb, d) \<in> set (timers s)"
  shows "\<exists>s1. step U opts s Close = (Inr s1, [ClearTimeout (Some h)]) \<and>
           dest_closed s1 \<and> rotation_timers s1 = [] \<and>
           (\<forall>es. \<exists>s2 out. run U opts s1 es = (Inr s2, out) \<and> rotation_timers s2 = [] \<and>
              (\<forall>t1 t2. step U opts s2 (TimerFire h t1 t2) = (Inr s2, [])))"
proof -
  from assms have rt: "rollTimeout s = Some h" and cl: "closeListener s"
    and lt: "h < next_id s"
    unfolding engine_inv_iff by blast+
  from close_step[OF assms(1), of U opts] rt cl obtain s1 where
    st: "step U opts s Close = (Inr s1, [ClearTimeout (Some h)])" and
    c: "dest_closed s1" and q: "rotation_timers s1 = []" and
    n: "next_id s1 = next_id s" and dead: "h \<notin> fst ` set (timers s1)"
    by auto
  have "\<exists>s2 out. run U opts s1 es = (Inr s2, out) \<and> rotation_timers s2 = [] \<and>
          (\<forall>t1 t2. step U opts s2 (TimerFire h t1 t2) = (Inr s2, []))" for es
  proof -
    from lt n have "h < next_id s1" by simp
    from quiet_run[OF q c this dead, of U opts es] obtain s2 out where
      "run U opts s1 es = (Inr s2, out)" "rotation_timers s2 = []"
      "h \<notin> fst ` set (timers s2)"
      by blast
    then show ?thesis using dead_timer_fire by blast
  qed
  with st c q show ?thesis by blast
qed

theorem close_cancels_rotation_timer_witness:
  "engine_inv example_state \<and>
   (0, ScheduledCb, 86399000) \<in> set (timers example_state) \<and>
   run (spec_utils 1000 []) example_opts example_state [Close, TimerFire 0 86400000 86400000] =
     (Inr (example_state\<lparr>timers := [], closeListener := False, dest_closed := True\<rparr>),
      [ClearTimeout (Some 0)])"
proof -
  have mem: "(0, ScheduledCb, 86399000) \<in> set (timers example_state)"
    by (simp add: example_state_def)
  show ?thesis
    using example_state_inv mem
      close_cancels_rotation_timer [OF example_state_inv mem, of "spec_utils 1000 []" example_opts]
    by (simp add: eval_defs)
qed


text \<open>
  Claim C4 says that after the destination has closed no previously armed timer fires a
  roll or raises an error. That holds for the timer of \<^verbatim>\<open>scheduleRoll\<close>, not for the
  timer the \<^verbatim>\<open>write\<close> listener arms with \<^verbatim>\<open>setTimeout(roll, 0)\<close>: the module keeps
  no handle of it and \<^verbatim>\<open>close\<close> does not clear it. From the closure startup builds, a
  write that reaches the limit, then \<^verbatim>\<open>close\<close>, then the expiry of the deferred timer:
  the callback increments the number and calls \<^verbatim>\<open>reopen\<close> on the closed destination,
  which throws.
\<close>

theorem deferred_roll_fires_after_close:
  "startup (spec_utils 1000 []) example_opts 1000 =
     (Inr example_state,
      [ScanDirectory ''app.log'' (Some 0), Construct ''app.log.0'', ClearTimeout None,
       SetTimeout 0 ScheduledCb 86399000]) \<and>
   run (spec_utils 1000 []) example_opts example_state [Write 1024, Close, TimerFire 1 0 0] =
     (Inr (example_state\<lparr>number := 1, timers := [], next_id := 2, closeListener := False,
            dest_closed := True\<rparr>),
      [SetTimeout 1 RollCb 0, ClearTimeout (Some 0), Reopen ''app.log.1'']) \<and>
   run_exn (spec_utils 1000 []) example_opts example_state [Write 1024, Close, TimerFire 1 0 0] =
     (Inl SonicBoomDestroyed,
      [SetTimeout 1 RollCb 0, ClearTimeout (Some 0), Reopen ''app.log.1''])"
  by (simp add: eval_defs exn_defs)




subsection \<open>Errors, signals and startup failures\<close>

text \<open>
  On a destination that has not emitted \<^verbatim>\<open>close\<close>, \<^verbatim>\<open>reopen\<close> returns and the
  callbacks with the exception are the callbacks without it.
\<close>

lemma step_exn_live:
  assumes "\<not> dest_closed s"
  shows "step_exn U opts s e = step U opts s e"
proof (cases e)
  case (Error err)
  with assms show ?thesis by (simp add: on_error_exn_def on_error_def roll_exn_def roll_def)
next
  case (RetryEAGAIN err)
  with assms show ?thesis
    by (simp add: retryEAGAIN_exn_def retryEAGAIN_def roll_exn_def roll_def)
next
  case (Signal sg)
  with assms show ?thesis by (simp add: roll_exn_def roll_def)
next
  case (TimerFire h t1 t2)
  with assms show ?thesis
    by (simp add: timer_fire_exn_def timer_fire_def scheduled_exn_def scheduled_def
        roll_exn_def roll_def Let_def split: option.splits callback.splits)
qed simp_all

text \<open>
  There, every \<^verbatim>\<open>error\<close> event and every call of \<^verbatim>\<open>retryEAGAIN\<close> ends with its
  diagnostic on stderr: the prefix, the error and a blank, a line feed and a carriage
  return. With \<^verbatim>\<open>mkdir\<close> set the callback rolls before that, once; without it the
  closure, and with it the number and the file path, stay as they were.
\<close>

lemma errors_reported_on_live_destination:
  assumes "\<not> dest_closed s"
  shows "step_exn U opts s (Error err) =
     (if mkdir opts
      then (Inr (s\<lparr>number := number s + 1\<rparr>),
            [Reopen (fileName U opts (number s + 1)),
             StderrWrite (''Pino Error : '' @ err @ [CHR '' '', CHR 0x0A, CHR 0x0D])])
      else (Inr s, [StderrWrite (''Pino Error : '' @ err @ [CHR '' '', CHR 0x0A, CHR 0x0D])])) \<and>
   step_exn U opts s (RetryEAGAIN err) =
     (if mkdir opts
      then (Inr (s\<lparr>number := number s + 1\<rparr>),
            [Reopen (fileName U opts (number s + 1)),
             StderrWrite (''Pino retryEAGAIN : '' @ err @ [CHR '' '', CHR 0x0A, CHR 0x0D])])
      else (Inr s,
            [StderrWrite (''Pino retryEAGAIN : '' @ err @ [CHR '' '', CHR 0x0A, CHR 0x0D])]))"
  using assms
  by (simp add: on_error_exn_def retryEAGAIN_exn_def roll_exn_def diagnostic_def)

text \<open>
  On a closed destination with \<^verbatim>\<open>mkdir\<close> set, both callbacks end at the call of
  \<^verbatim>\<open>reopen\<close>: \<^verbatim>\<open>roll()\<close> stands before \<^verbatim>\<open>process.stderr.write\<close> in both, so the
  write is never reached. Without \<^verbatim>\<open>mkdir\<close> the diagnostic is written there too.
\<close>

lemma errors_unreported_on_closed_destination:
  assumes "dest_closed s" "mkdir opts"
  shows "step_exn U opts s (Error err) =
           (Inl SonicBoomDestroyed, [Reopen (fileName U opts (number s + 1))]) \<and>
         step_exn U opts s (RetryEAGAIN err) =
           (Inl SonicBoomDestroyed, [Reopen (fileName U opts (number s + 1))])"
  using assms by (simp add: on_error_exn_def retryEAGAIN_exn_def roll_exn_def)

lemma errors_reported_without_mkdir:
  assumes "\<not> mkdir opts"
  shows "step_exn U opts s (Error err) =
           (Inr s, [StderrWrite (''Pino Error : '' @ err @ [CHR '' '', CHR 0x0A, CHR 0x0D])]) \<and>
         step_exn U opts s (RetryEAGAIN err) =
           (Inr s,
            [StderrWrite (''Pino retryEAGAIN : '' @ err @ [CHR '' '', CHR 0x0A, CHR 0x0D])])"
  using assms by (simp add: on_error_exn_def retryEAGAIN_exn_def diagnostic_def)

text \<open>
  Claim C5 says that every \<^verbatim>\<open>error\<close> event and every call of \<^verbatim>\<open>retryEAGAIN\<close>
  writes a diagnostic to stderr, and rolls exactly when \<^verbatim>\<open>mkdir\<close> is set. From the
  closure startup builds, with \<^verbatim>\<open>mkdir\<close> set: after \<^verbatim>\<open>close\<close>, an \<^verbatim>\<open>error\<close> event
  and a call of \<^verbatim>\<open>retryEAGAIN\<close> each end in the exception of \<^verbatim>\<open>reopen\<close> with
  nothing written to stderr. The same event with \<^verbatim>\<open>mkdir\<close> off, and the same event
  before \<^verbatim>\<open>close\<close>, write \<^verbatim>\<open>Pino Error : EIO\<close>, a blank, a line feed and a
  carriage return.
\<close>

theorem error_on_closed_destination_unreported:
  "run_exn (spec_utils 1000 []) example_opts example_state [Close, Error ''EIO''] =
     (Inl SonicBoomDestroyed, [ClearTimeout (Some 0), Reopen ''app.log.1'']) \<and>
   run_exn (spec_utils 1000 []) example_opts example_state [Close, RetryEAGAIN ''EAGAIN''] =
     (Inl SonicBoomDestroyed, [ClearTimeout (Some 0), Reopen ''app.log.1'']) \<and>
   run_exn (spec_utils 1000 []) (example_opts\<lparr>mkdir := False\<rparr>) example_state
       [Close, Error ''EIO''] =
     (Inr (example_state\<lparr>timers := [], closeListener := False, dest_closed := True\<rparr>),
      [ClearTimeout (Some 0), StderrWrite (''Pino Error : EIO '' @ [CHR 0x0A, CHR 0x0D])]) \<and>
   run_exn (spec_utils 1000 []) example_opts example_state [Error ''EIO''] =
     (Inr (example_state\<lparr>number := 1\<rparr>),
      [Reopen ''app.log.1'', StderrWrite (''Pino Error : EIO '' @ [CHR 0x0A, CHR 0x0D])])"
  by (simp add: eval_defs exn_defs)

text \<open>
  Claim C6. Either signal rolls at once, in any state of the closure, and changes nothing
  but the number; two signals in a row are two rolls, to the next number and the one
  after it.
\<close>

theorem signal_rolls_immediately:
  "step U opts s (Signal sg) =
     (Inr (s\<lparr>number := number s + 1\<rparr>), [Reopen (fileName U opts (number s + 1))]) \<and>
   run U opts s [Signal sg, Signal sg'] =
     (Inr (s\<lparr>number := number s + 2\<rparr>),
      [Reopen (fileName U opts (number s + 1)), Reopen (fileName U opts (number s + 2))])"
  by (simp add: roll_def add.commute)

theorem signal_rolls_immediately_witness:
  "run (spec_utils 1000 []) example_opts example_state [Signal SIGHUP, Signal SIGUSR2] =
     (Inr (example_state\<lparr>number := 2\<rparr>), [Reopen ''app.log.1'', Reopen ''app.log.2''])"
  using signal_rolls_immediately [of "spec_utils 1000 []" example_opts example_state SIGHUP SIGUSR2]
  by (simp add: eval_defs)


text \<open>
  Claim C7. A failure of \<^verbatim>\<open>parseFrequency\<close> or of \<^verbatim>\<open>parseSize\<close> ends startup before
  the destination is constructed. When \<^verbatim>\<open>parseFrequency\<close> fails, startup fails with
  its error and has done nothing. When \<^verbatim>\<open>parseSize\<close> fails, startup fails and has not
  constructed the destination; if the two calls before it succeeded, it fails with the
  error of \<^verbatim>\<open>parseSize\<close> and has only scanned the directory.
\<close>

theorem invalid_configuration_prevents_open:
  "(parseFrequency U (frequency opts) = Inl e \<longrightarrow> startup U opts now = (Inl e, [])) \<and>
   (parseSize U (size_opt opts) = Inl e \<longrightarrow>
      (\<exists>e' a. startup U opts now = (Inl e', a) \<and> \<not> list_ex is_construct a) \<and>
      (\<forall>fso n. parseFrequency U (frequency opts) = Inr fso \<and>
           detectLastNumber U (file_opt opts) (map_option start fso) = Inr n \<longrightarrow>
           startup U opts now =
             (Inl e, [ScanDirectory (file_opt opts) (map_option start fso)])))"
  by (auto simp: startup_def Let_def split: sum.splits)

theorem invalid_configuration_prevents_open_witness:
  "parseSize (spec_utils 1000 []) (size_opt (example_opts\<lparr>size_opt := Some (JStr ''5x'')\<rparr>)) =
     Inl InvalidConfiguration \<and>
   startup (spec_utils 1000 []) (example_opts\<lparr>size_opt := Some (JStr ''5x'')\<rparr>) 1000 =
     (Inl InvalidConfiguration, [ScanDirectory ''app.log'' (Some 0)]) \<and>
   parseFrequency (spec_utils 1000 [])
     (frequency (example_opts\<lparr>frequency := Some (JStr ''weekly'')\<rparr>)) =
     Inl InvalidConfiguration \<and>
   startup (spec_utils 1000 []) (example_opts\<lparr>frequency := Some (JStr ''weekly'')\<rparr>) 1000 =
     (Inl InvalidConfiguration, [])"
  using invalid_configuration_prevents_open [of "spec_utils 1000 []"
      "example_opts\<lparr>size_opt := Some (JStr ''5x'')\<rparr>" InvalidConfiguration 1000]
    invalid_configuration_prevents_open [of "spec_utils 1000 []"
      "example_opts\<lparr>frequency := Some (JStr ''weekly'')\<rparr>" InvalidConfiguration 1000]
  by (simp add: eval_defs)


text \<open>
  Claim C8, as amended. With \<^verbatim>\<open>mkdir\<close> set, the \<^verbatim>\<open>error\<close> listener rolls first and
  writes the diagnostic to stderr after the roll: its actions are the \<^verbatim>\<open>reopen\<close> call
  followed by the write, so the roll precedes the report and the report does not precede
  the roll.
\<close>

theorem error_roll_then_report:
  assumes "mkdir opts"
  shows "snd (step U opts s (Error err)) =
           [Reopen (fileName U opts (number s + 1)),
            StderrWrite (diagnostic ''Pino Error : '' err)] \<and>
         precedes is_reopen is_stderr (snd (step U opts s (Error err))) \<and>
         \<not> precedes is_stderr is_reopen (snd (step U opts s (Error err)))"
  using assms by (simp add: on_error_def roll_def precedes_def)

theorem error_roll_then_report_witness:
  "mkdir example_opts \<and>
   snd (step (spec_utils 1000 []) example_opts example_state (Error ''EIO'')) =
     [Reopen ''app.log.1'', StderrWrite (diagnostic ''Pino Error : '' ''EIO'')]"
proof -
  have mk: "mkdir example_opts" by (simp add: example_opts_def)
  show ?thesis
    using mk error_roll_then_report [OF mk, of "spec_utils 1000 []" example_state "''EIO''"]
    by (simp add: eval_defs)
qed

text \<open>
  Claim C8 as stated says that the diagnostic is reported before the roll. On the example
  closure the report does not precede the roll.
\<close>

theorem report_before_roll_counterexample:
  "\<not> precedes is_stderr is_reopen
       (snd (step (spec_utils 1000 []) example_opts example_state (Error ''EIO'')))"
  by (simp add: eval_defs)


subsection \<open>The byte count\<close>

lemma step_currentSize:
  assumes "maxSize s = Some m" "0 < m" "0 \<le> currentSize s" "currentSize s < m"
    "nonneg_write e" "step U opts s e = (Inr s', a)"
  shows "maxSize s' = Some m \<and> 0 \<le> currentSize s' \<and> currentSize s' < m"
proof (cases e)
  case (Write n)
  with assms show ?thesis
    by (auto simp: on_write_def setTimeout_def Let_def split: if_splits)
next
  case (Error err)
  with assms show ?thesis by (auto simp: on_error_def roll_def split: if_splits)
next
  case (RetryEAGAIN err)
  with assms show ?thesis by (auto simp: retryEAGAIN_def roll_def split: if_splits)
next
  case (Signal sg)
  with assms show ?thesis by (auto simp: roll_def)
next
  case Close
  with assms show ?thesis by (auto simp: on_close_def split: if_splits)
next
  case (TimerFire h t1 t2)
  with assms show ?thesis
    by (auto simp: timer_fire_def scheduled_def scheduleRoll_def setTimeout_def roll_def Let_def
        split: option.splits callback.splits if_splits)
qed

text \<open>
  Claim C9. With a positive limit and non-negative byte counts in every \<^verbatim>\<open>write\<close>
  event, \<open>0 \<le> currentSize < maxSize\<close> is an invariant of the run: from a closure where it
  holds (at startup \<^verbatim>\<open>currentSize\<close> is 0), every list of such events runs to the end and
  it holds again, in particular after every \<^verbatim>\<open>write\<close> listener.
\<close>

theorem currentSize_below_maxSize:
  assumes "engine_inv s" "maxSize s = Some m" "0 < m" "0 \<le> currentSize s"
    "currentSize s < m" "list_all nonneg_write es"
  shows "\<exists>s' out. run U opts s es = (Inr s', out) \<and>
           0 \<le> currentSize s' \<and> currentSize s' < m"
proof -
  have "\<exists>s' out. run U opts s es = (Inr s', out) \<and> maxSize s' = Some m \<and>
           0 \<le> currentSize s' \<and> currentSize s' < m"
    using assms(1,2,4,5,6)
  proof (induction es arbitrary: s)
    case Nil
    then show ?case by simp
  next
    case (Cons e es)
    from step_inv[OF Cons.prems(1), of U opts e] obtain s1 a1 where
      st: "step U opts s e = (Inr s1, a1)" and inv1: "engine_inv s1" by blast
    from Cons.prems(5) have nn: "nonneg_write e" and rest: "list_all nonneg_write es" by simp_all
    from step_currentSize[OF Cons.prems(2) assms(3) Cons.prems(3,4) nn st]
    have s1: "maxSize s1 = Some m" "0 \<le> currentSize s1" "currentSize s1 < m" by simp_all
    from Cons.IH[OF inv1 s1 rest] obtain s2 a2 where
      "run U opts s1 es = (Inr s2, a2)" "maxSize s2 = Some m"
      "0 \<le> currentSize s2" "currentSize s2 < m" by blast
    with st show ?case by simp
  qed
  then show ?thesis by blast
qed

theorem currentSize_below_maxSize_witness:
  "engine_inv example_state \<and> maxSize example_state = Some 1024 \<and> (0::int) < 1024 \<and>
   0 \<le> currentSize example_state \<and> currentSize example_state < 1024 \<and>
   list_all nonneg_write [Write 600, Write 500, Signal SIGHUP, Write 1023] \<and>
   (case run (spec_utils 1000 []) example_opts example_state
           [Write 600, Write 500, Signal SIGHUP, Write 1023] of
      (Inr s', out) \<Rightarrow> currentSize s' = 1023
    | (Inl e, out) \<Rightarrow> False)"
proof -
  have ms: "maxSize example_state = Some 1024" by (simp add: example_state_def)
  have c0: "0 \<le> currentSize example_state" by (simp add: example_state_def)
  have c1: "currentSize example_state < 1024" by (simp add: example_state_def)
  have nn: "list_all nonneg_write [Write 600, Write 500, Signal SIGHUP, Write 1023]" by simp
  show ?thesis
    using example_state_inv ms c0 c1 nn
      currentSize_below_maxSize [OF example_state_inv ms _ c0 c1 nn, of "spec_utils 1000 []"
        example_opts]
    by (simp add: eval_defs)
qed

end
